theory Spec2Isabelle
  imports Complex_Main
begin

section \<open>Identifiers, strings and responses\<close>

text \<open>
  Discord snowflakes (\<open>discord.GuildID\<close>, \<open>RoleID\<close>, \<open>UserID\<close>, \<open>MessageID\<close>,
  \<open>ChannelID\<close>) are unsigned 64-bit numbers on which the program does no arithmetic;
  they are natural numbers here. Go strings are byte sequences, as \<open>string\<close> is.
\<close>

type_synonym Snowflake = nat

definition NullGuildID :: Snowflake where
  "NullGuildID = 0"

definition NullMessageID :: Snowflake where
  "NullMessageID = 0"

definition NullChannelID :: Snowflake where
  "NullChannelID = 0"

text \<open>
  \<open>strconv.Itoa\<close> and the \<open>%s\<close> rendering of a snowflake: the decimal digits of a
  non-negative number, most significant first, no leading zero.
\<close>

definition digit :: "nat \<Rightarrow> char" where
  "digit d = ''0123456789'' ! d"

fun Itoa :: "nat \<Rightarrow> string" where
  "Itoa n = (if n < 10 then [digit n] else Itoa (n div 10) @ [digit (n mod 10)])"

declare Itoa.simps [simp del]

text \<open>\<open>strings.HasPrefix\<close> and \<open>strings.TrimPrefix\<close>.\<close>

definition HasPrefix :: "string \<Rightarrow> string \<Rightarrow> bool" where
  "HasPrefix s p = (take (length p) s = p)"

definition TrimPrefix :: "string \<Rightarrow> string \<Rightarrow> string" where
  "TrimPrefix s p = (if HasPrefix s p then drop (length p) s else s)"

text \<open>\<open>strings.Split(value, "\n")\<close>: the pieces between the newlines, never an empty list.\<close>

definition newline :: char where
  "newline = CHR 0x0A"

fun Split :: "string \<Rightarrow> string list" where
  "Split [] = [[]]"
| "Split (c # cs) =
     (if c = newline then [] # Split cs
      else (case Split cs of [] \<Rightarrow> [[c]] | x # xs \<Rightarrow> (c # x) # xs))"

text \<open>
  What a handler hands back to the platform: \<open>ResponseMessage\<close>,
  \<open>ResponseMessageNoMention\<close> and \<open>response.Ephemeral\<close> carry a text, \<open>modal.Respond\<close>
  opens the poll form (its argument is the custom ID of the description field), and
  \<open>VoteMessage\<close> is the poll message with its option selector (its text, \<open>vote.String()\<close>,
  is rendered by code that is not among the sources).
\<close>

record SelectOption =
  Label :: string
  Value :: string

datatype InteractionResponse =
    ResponseMessage string
  | ResponseMessageNoMention string
  | Ephemeral string
  | ModalRespond string
  | VoteMessage "SelectOption list"

section \<open>The scoped store\<close>

text \<open>
  \<open>storage.Vote\<close>, with the fields \<open>VoteModalHandler\<close> initialises. Times are epoch
  seconds (\<open>int64\<close>; no claim depends on overflow, so they are integers). The two Go
  maps are partial functions.
\<close>

record Vote =
  StartTime :: int
  EndTime :: int
  GuildID :: Snowflake
  MessageID :: Snowflake
  ChannelID :: Snowflake
  Question :: string
  Options :: "string \<rightharpoonup> string"
  Order :: "string list"
  Votes :: "Snowflake \<rightharpoonup> string"

text \<open>
  The store holds one record per (tenant, category, key). The two categories the handlers
  below use are kept as two typed maps: \<open>"access"\<close>, keyed by command group, holding a
  list of role IDs, and \<open>"votes"\<close>, keyed by message ID, holding a \<open>Vote\<close>.
\<close>

record KeyValueStore =
  access :: "Snowflake \<times> string \<rightharpoonup> Snowflake list"
  votes :: "Snowflake \<times> Snowflake \<rightharpoonup> Vote"

definition emptyStore :: KeyValueStore where
  "emptyStore = \<lparr>access = Map.empty, votes = Map.empty\<rparr>"

datatype error =
    StoreError
  | NotSelectInteraction
  | WrongSelectionCount nat
  | NotAnOption string
  | EditError

text \<open>
  Every call into the store, and the call that edits the poll message, can fail. Whether
  it does is outside the handlers' control, so each handler takes the outcome of its
  external calls as an argument: the clock, and one flag per call that may return an
  error.
\<close>

record world =
  now :: int
  readFails :: bool
  editFails :: bool
  writeFails :: bool

text \<open>
  Modelled from the spec: the store implementation (package \<open>storage\<close>) is not among
  the sources. \<open>GetObject\<close> returns \<open>found = false\<close> and leaves the destination
  untouched when there is no record; \<open>Set\<close> replaces the record at its key; \<open>Delete\<close>
  removes it and is a no-op on an absent record. A failing call changes nothing.
\<close>

definition GetObject ::
  "bool \<Rightarrow> KeyValueStore \<Rightarrow> Snowflake \<Rightarrow> string \<Rightarrow> error + Snowflake list option" where
  "GetObject fails kvs guildID key =
     (if fails then Inl StoreError else Inr (access kvs (guildID, key)))"

definition Set ::
  "bool \<Rightarrow> KeyValueStore \<Rightarrow> Snowflake \<Rightarrow> string \<Rightarrow> Snowflake list \<Rightarrow> error + KeyValueStore" where
  "Set fails kvs guildID key v =
     (if fails then Inl StoreError
      else Inr (kvs\<lparr>access := (access kvs)((guildID, key) \<mapsto> v)\<rparr>))"

text \<open>
  Modelled from the spec: \<open>storage.GetVote\<close> loads the record at
  (tenant, \<open>"votes"\<close>, message ID); \<open>Vote.Store\<close> writes the record under its own
  \<open>GuildID\<close> and \<open>MessageID\<close>.
\<close>

definition GetVote ::
  "bool \<Rightarrow> KeyValueStore \<Rightarrow> Snowflake \<Rightarrow> Snowflake \<Rightarrow> error + Vote option" where
  "GetVote fails kvs guildID messageID =
     (if fails then Inl StoreError else Inr (votes kvs (guildID, messageID)))"

definition Store :: "bool \<Rightarrow> Vote \<Rightarrow> KeyValueStore \<Rightarrow> error + KeyValueStore" where
  "Store fails vote kvs =
     (if fails then Inl StoreError
      else Inr (kvs\<lparr>votes := (votes kvs)((GuildID vote, MessageID vote) \<mapsto> vote)\<rparr>))"

definition Delete ::
  "bool \<Rightarrow> KeyValueStore \<Rightarrow> Snowflake \<Rightarrow> Snowflake \<Rightarrow> error + KeyValueStore" where
  "Delete fails kvs guildID messageID =
     (if fails then Inl StoreError
      else Inr (kvs\<lparr>votes := (votes kvs)((guildID, messageID) := None)\<rparr>))"

section \<open>Access grants (commands/access.go)\<close>

text \<open>
  A command option as the handlers read it: the result of \<open>String()\<close> and of
  \<open>SnowflakeValue()\<close> (\<open>None\<close> when that returns an error).
\<close>

record CommandInteractionOption =
  optString :: string
  optSnowflake :: "Snowflake option"

text \<open>
  The parts of the program and its libraries the access handlers use and the sources do
  not hold: \<open>strings.ToLower\<close> and the package variable \<open>commandGroups\<close> are parameters.
\<close>

record accessEnv =
  ToLower :: "string \<Rightarrow> string"
  commandGroups :: "string list"

text \<open>
  Modelled from the spec: \<open>utility.ContainsString\<close> and \<open>utility.ContainsRole\<close> are
  not among the sources; they test membership ("add role if absent").
\<close>

definition ContainsString :: "string list \<Rightarrow> string \<Rightarrow> bool" where
  "ContainsString xs s = (s \<in> set xs)"

definition ContainsRole :: "Snowflake list \<Rightarrow> Snowflake \<Rightarrow> bool" where
  "ContainsRole xs r = (r \<in> set xs)"

definition errorLogged :: InteractionResponse where
  "errorLogged = ResponseMessage ''An error occured, and has been logged.''"

definition grantedMessage :: "Snowflake \<Rightarrow> string \<Rightarrow> InteractionResponse" where
  "grantedMessage roleID commandGroup =
     ResponseMessageNoMention (''<@&'' @ Itoa roleID @ ''> now has access to the `''
        @ commandGroup @ ''` command group'' @ [newline])"

definition deniedMessage :: "Snowflake \<Rightarrow> string \<Rightarrow> InteractionResponse" where
  "deniedMessage roleID commandGroup =
     ResponseMessageNoMention (''<@&'' @ Itoa roleID @ ''> is denied access to the `''
        @ commandGroup @ ''` command group'' @ [newline])"

definition invalidGroup :: "string \<Rightarrow> InteractionResponse" where
  "invalidGroup commandGroup =
     ResponseMessage (''Sorry, `'' @ commandGroup @ ''` is not a valid command group.'')"

text \<open>
  \<open>SubCommandAccessGrant\<close>, lines 59 to 67: what the handler does with the result of
  its read. \<open>found\<close> and \<open>granted\<close> are the local variables the read filled in; with no
  record, \<open>granted\<close> is still the empty list it was initialised to.
\<close>

definition grantWrite ::
  "world \<Rightarrow> KeyValueStore \<Rightarrow> Snowflake \<Rightarrow> string \<Rightarrow> Snowflake \<Rightarrow> Snowflake list option
     \<Rightarrow> InteractionResponse \<times> KeyValueStore" where
  "grantWrite w sniper guildID commandGroup roleID r =
     (let found = (r \<noteq> None); granted = (case r of None \<Rightarrow> [] | Some g \<Rightarrow> g) in
      if \<not> found \<or> \<not> ContainsRole granted roleID then
        (case Set (writeFails w) sniper guildID commandGroup (granted @ [roleID]) of
           Inl err \<Rightarrow> (errorLogged, sniper)
         | Inr sniper' \<Rightarrow> (grantedMessage roleID commandGroup, sniper'))
      else (grantedMessage roleID commandGroup, sniper))"

text \<open>\<open>SubCommandAccessGrant\<close>: the checks of its arguments, the read, then the write.\<close>

definition SubCommandAccessGrant ::
  "accessEnv \<Rightarrow> world \<Rightarrow> KeyValueStore \<Rightarrow> Snowflake \<Rightarrow> CommandInteractionOption list
     \<Rightarrow> InteractionResponse \<times> KeyValueStore" where
  "SubCommandAccessGrant env w sniper guildID options =
     (if length options \<noteq> 2 then (ResponseMessage ''Invalid command structure.'', sniper)
      else
        let commandGroup = ToLower env (optString (options ! 0)) in
        if \<not> ContainsString (commandGroups env) commandGroup
        then (invalidGroup commandGroup, sniper)
        else
          (case optSnowflake (options ! 1) of
             None \<Rightarrow> (errorLogged, sniper)
           | Some roleID \<Rightarrow>
               (case GetObject (readFails w) sniper guildID commandGroup of
                  Inl err \<Rightarrow> (errorLogged, sniper)
                | Inr r \<Rightarrow> grantWrite w sniper guildID commandGroup roleID r)))"

text \<open>
  \<open>SubCommandAccessRevoke\<close>, lines 97 to 103: the loop that overwrites the first
  occurrence of the role with the last element and drops the last element.
\<close>

function revokeLoop :: "nat \<Rightarrow> Snowflake \<Rightarrow> Snowflake list \<Rightarrow> Snowflake list" where
  "revokeLoop idx roleID granted =
     (if idx < length granted then
        (if granted ! idx = roleID then butlast (granted[idx := last granted])
         else revokeLoop (Suc idx) roleID granted)
      else granted)"
  by pat_completeness auto
termination
  by (relation "measure (\<lambda>(idx, roleID, granted). length granted - idx)") auto

declare revokeLoop.simps [simp del]

definition revokeWrite ::
  "world \<Rightarrow> KeyValueStore \<Rightarrow> Snowflake \<Rightarrow> string \<Rightarrow> Snowflake \<Rightarrow> Snowflake list option
     \<Rightarrow> InteractionResponse \<times> KeyValueStore" where
  "revokeWrite w sniper guildID commandGroup roleID r =
     (let found = (r \<noteq> None); granted = (case r of None \<Rightarrow> [] | Some g \<Rightarrow> g) in
      if found \<and> ContainsRole granted roleID then
        (case Set (writeFails w) sniper guildID commandGroup (revokeLoop 0 roleID granted) of
           Inl err \<Rightarrow> (errorLogged, sniper)
         | Inr sniper' \<Rightarrow> (deniedMessage roleID commandGroup, sniper'))
      else (deniedMessage roleID commandGroup, sniper))"

definition SubCommandAccessRevoke ::
  "accessEnv \<Rightarrow> world \<Rightarrow> KeyValueStore \<Rightarrow> Snowflake \<Rightarrow> CommandInteractionOption list
     \<Rightarrow> InteractionResponse \<times> KeyValueStore" where
  "SubCommandAccessRevoke env w sniper guildID options =
     (if length options \<noteq> 2 then (ResponseMessage ''Invalid command structure.'', sniper)
      else
        let commandGroup = ToLower env (optString (options ! 0)) in
        if \<not> ContainsString (commandGroups env) commandGroup
        then (invalidGroup commandGroup, sniper)
        else
          (case optSnowflake (options ! 1) of
             None \<Rightarrow> (errorLogged, sniper)
           | Some roleID \<Rightarrow>
               (case GetObject (readFails w) sniper guildID commandGroup of
                  Inl err \<Rightarrow> (errorLogged, sniper)
                | Inr r \<Rightarrow> revokeWrite w sniper guildID commandGroup roleID r)))"

section \<open>Polls (interactions/vote.go)\<close>




text \<open>
  The number of days is a \<open>float64\<close> in the program and a rational here: exact on the
  values used below, with no NaN or infinity. Formatting it with \<open>%f\<close> and parsing it
  back with \<open>strconv.ParseFloat\<close> are library code and parameters of the model;
  \<open>int64(x)\<close> truncates towards zero.
\<close>

record voteEnv =
  FormatFloat :: "rat \<Rightarrow> string"
  ParseFloat :: "string \<Rightarrow> rat option"

definition int64 :: "rat \<Rightarrow> int" where
  "int64 x = (if 0 \<le> x then \<lfloor>x\<rfloor> else \<lceil>x\<rceil>)"



text \<open>
  \<open>VoteModalHandler\<close>, lines 134 to 144: the loop over the option lines; \<open>i\<close> is the index
  of the line at the head of the list.
\<close>

fun optionsLoop :: "nat \<Rightarrow> string list \<Rightarrow> Vote \<Rightarrow> Vote" where
  "optionsLoop i [] vote = vote"
| "optionsLoop i (opt # rest) vote =
     (if i > 24 then vote
      else
        let opt' = (if length opt > 100 then take 100 opt else opt);
            item = ''vote/'' @ Itoa i
        in optionsLoop (Suc i) rest
             (vote\<lparr>Options := (Options vote)(item \<mapsto> opt'), Order := Order vote @ [item]\<rparr>))"

definition configProblem :: InteractionResponse where
  "configProblem = Ephemeral
     ''There was a problem processing your vote configuration. It has been logged.''"

definition configError :: InteractionResponse where
  "configError = Ephemeral
     ''There was an error processing your vote configuration. It has been logged.''"

definition configStrange :: InteractionResponse where
  "configStrange = Ephemeral
     ''Something strange happened while processing your vote configuration. It has been logged.''"

text \<open>
  \<open>VoteModalHandler\<close>, lines 119 to 149: the loop over the decoded form. The form is a
  Go map; the list holds its entries in the order the loop visits them.
\<close>

fun modalLoop :: "voteEnv \<Rightarrow> (string \<times> string) list \<Rightarrow> Vote \<Rightarrow> InteractionResponse + Vote" where
  "modalLoop env [] vote = Inr vote"
| "modalLoop env ((key, val) # rest) vote =
     (if HasPrefix key ''desc/'' then
        (if Question vote \<noteq> [] then Inl configProblem
         else
           (case ParseFloat env (TrimPrefix key ''desc/'') of
              None \<Rightarrow> Inl configError
            | Some days \<Rightarrow>
                modalLoop env rest
                  (vote\<lparr>Question := val,
                        EndTime := StartTime vote + int64 (days * 24 * 3600)\<rparr>)))
      else if key = ''options'' then modalLoop env rest (optionsLoop 0 (Split val) vote)
      else Inl configStrange)"

text \<open>
  \<open>makeVoteSelector\<close>: one entry per option, appended in the order in which \<open>range\<close>
  visits the keys of the \<open>Options\<close> map. Go leaves that order to the runtime, so it is
  an argument: a list of the keys of the map, each once.
\<close>

definition rangeOrder :: "('k \<rightharpoonup> 'v) \<Rightarrow> 'k list \<Rightarrow> bool" where
  "rangeOrder m ks = (distinct ks \<and> set ks = dom m)"

fun selectorLoop :: "Vote \<Rightarrow> string list \<Rightarrow> SelectOption list \<Rightarrow> SelectOption list" where
  "selectorLoop vote [] selectable = selectable"
| "selectorLoop vote (key # rest) selectable =
     (case Options vote key of
        None \<Rightarrow> selectorLoop vote rest selectable
      | Some label \<Rightarrow> selectorLoop vote rest (selectable @ [\<lparr>Label = label, Value = key\<rparr>]))"

definition makeVoteSelector :: "string list \<Rightarrow> Vote \<Rightarrow> SelectOption list" where
  "makeVoteSelector keys vote = selectorLoop vote keys []"

text \<open>
  \<open>VoteModalHandler\<close>. The result is the response and the vote the callback closes
  over (\<open>None\<close> for a \<open>nil\<close> callback).
\<close>

record CommandResponse =
  Response :: InteractionResponse
  Callback :: "Vote option"

definition VoteModalHandler ::
  "voteEnv \<Rightarrow> world \<Rightarrow> string list \<Rightarrow> Snowflake \<Rightarrow> (string \<times> string) list \<Rightarrow> CommandResponse" where
  "VoteModalHandler env w keys guildID data =
     (let vote = \<lparr>StartTime = now w, EndTime = 0, GuildID = guildID,
                  MessageID = NullMessageID, ChannelID = NullChannelID, Question = [],
                  Options = Map.empty, Order = [], Votes = Map.empty\<rparr>
      in case modalLoop env data vote of
           Inl r \<Rightarrow> \<lparr>Response = r, Callback = None\<rparr>
         | Inr vote' \<Rightarrow>
             \<lparr>Response = VoteMessage (makeVoteSelector keys vote'), Callback = Some vote'\<rparr>)"

text \<open>The callback of lines 159 to 166, run once the poll message exists.\<close>

definition VoteCallback ::
  "world \<Rightarrow> Vote \<Rightarrow> Snowflake \<Rightarrow> Snowflake \<Rightarrow> KeyValueStore \<Rightarrow> KeyValueStore" where
  "VoteCallback w vote messageID channelID kvs =
     (case Store (writeFails w) (vote\<lparr>MessageID := messageID, ChannelID := channelID\<rparr>) kvs of
        Inl err \<Rightarrow> kvs
      | Inr kvs' \<Rightarrow> kvs')"

text \<open>\<open>DeleteVote\<close>.\<close>

definition DeleteVote :: "world \<Rightarrow> KeyValueStore \<Rightarrow> Snowflake \<Rightarrow> Snowflake \<Rightarrow> KeyValueStore" where
  "DeleteVote w kvs guildID messageID =
     (if guildID = NullGuildID then kvs
      else
        (case Delete (writeFails w) kvs guildID messageID of
           Inl err \<Rightarrow> kvs
         | Inr kvs' \<Rightarrow> kvs'))"

text \<open>
  The event of a component interaction, as far as the vote handler reads it, and the
  interaction itself: a selection with its values, or any other component.
\<close>

record InteractionCreateEvent =
  eGuildID :: Snowflake
  eChannelID :: Snowflake
  eMessageID :: Snowflake
  eSenderID :: Snowflake

datatype ComponentInteraction = SelectInteraction "string list" | OtherComponent

type_synonym VoteResult = "bool \<times> string \<times> error option"

definition voteClosed :: string where
  "voteClosed = ''I'm sorry, that vote is closed!''"

definition registered :: "string \<Rightarrow> string" where
  "registered label = ''Your vote for...'' @ [newline] @ label @ [newline] @ ''...is registered.''"

text \<open>
  \<open>handleInteractionAsVote\<close>, lines 199 to 228: what the handler does with the vote it
  has read.
\<close>

definition castBallot ::
  "world \<Rightarrow> KeyValueStore \<Rightarrow> InteractionCreateEvent \<Rightarrow> ComponentInteraction \<Rightarrow> Vote
     \<Rightarrow> VoteResult \<times> KeyValueStore" where
  "castBallot w kvs e interaction vote =
     (if EndTime vote \<le> now w then ((True, voteClosed, None), kvs)
      else
        (case interaction of
           OtherComponent \<Rightarrow>
             ((True, ''Your response was not in the right format, somehow?!'',
               Some NotSelectInteraction), kvs)
         | SelectInteraction values \<Rightarrow>
             if length values \<noteq> 1 then
               ((True, ''You must select exactly one item'',
                 Some (WrongSelectionCount (length values))), kvs)
             else
               let voted = values ! 0 in
               (case Options vote voted of
                  None \<Rightarrow> ((True, ''Sorry, you can't vote for that.'', Some (NotAnOption voted)), kvs)
                | Some label \<Rightarrow>
                    let vote' = vote\<lparr>Votes := (Votes vote)(eSenderID e \<mapsto> voted)\<rparr> in
                    if editFails w then
                      ((True, ''There was an error registering your vote.'', Some EditError), kvs)
                    else
                      (case Store (writeFails w) vote' kvs of
                         Inl err \<Rightarrow> ((True, ''There was an error storing your vote.'', Some err), kvs)
                       | Inr kvs' \<Rightarrow> ((True, registered label, None), kvs')))))"

text \<open>\<open>handleInteractionAsVote\<close>: the read, then the rest.\<close>

definition handleInteractionAsVote ::
  "world \<Rightarrow> KeyValueStore \<Rightarrow> InteractionCreateEvent \<Rightarrow> ComponentInteraction
     \<Rightarrow> VoteResult \<times> KeyValueStore" where
  "handleInteractionAsVote w kvs e interaction =
     (case GetVote (readFails w) kvs (eGuildID e) (eMessageID e) of
        Inl err \<Rightarrow> ((True, ''Something very odd happened.'', Some err), kvs)
      | Inr None \<Rightarrow> ((False, [], None), kvs)
      | Inr (Some vote) \<Rightarrow> castBallot w kvs e interaction vote)"

text \<open>\<open>ComponentVote\<close>: what the voter is shown.\<close>

definition ComponentVote ::
  "world \<Rightarrow> KeyValueStore \<Rightarrow> InteractionCreateEvent \<Rightarrow> ComponentInteraction
     \<Rightarrow> InteractionResponse \<times> KeyValueStore" where
  "ComponentVote w kvs e interaction =
     (case handleInteractionAsVote w kvs e interaction of
        ((isVote, resp, err), kvs') \<Rightarrow>
          if err \<noteq> None then
            (Ephemeral ''Something went wrong. It was logged, so hopefully it'll get fixed.'', kvs')
          else if isVote \<and> resp \<noteq> [] then (Ephemeral resp, kvs')
          else (Ephemeral ''I'm sorry, but I can't find the poll you are trying to vote on?!'', kvs'))"

section \<open>Tally, sequences of calls, reachable stores\<close>

text \<open>
  Modelled from the spec: the tally is rendered by \<open>Vote.String\<close>, which is not among
  the sources. The count of an option is the number of voters whose entry in \<open>Votes\<close> is
  that option-key; the total is the number of entries of \<open>Votes\<close>.
\<close>

definition tallyCount :: "Vote \<Rightarrow> string \<Rightarrow> nat" where
  "tallyCount vote key = card {u. Votes vote u = Some key}"

definition tallyTotal :: "Vote \<Rightarrow> nat" where
  "tallyTotal vote = card (dom (Votes vote))"

text \<open>The same grant request handled once per element of a list of worlds.\<close>

fun grantAll ::
  "accessEnv \<Rightarrow> world list \<Rightarrow> KeyValueStore \<Rightarrow> Snowflake \<Rightarrow> CommandInteractionOption list
     \<Rightarrow> KeyValueStore" where
  "grantAll env [] kvs guildID options = kvs"
| "grantAll env (w # ws) kvs guildID options =
     grantAll env ws (snd (SubCommandAccessGrant env w kvs guildID options)) guildID options"

text \<open>
  Ballots of one voter on one poll message, one after the other: each is a selection of
  one option-key, handled in its own world.
\<close>

fun castAll ::
  "(world \<times> string) list \<Rightarrow> KeyValueStore \<Rightarrow> InteractionCreateEvent \<Rightarrow> KeyValueStore" where
  "castAll [] kvs e = kvs"
| "castAll ((w, key) # cs) kvs e =
     castAll cs (snd (handleInteractionAsVote w kvs e (SelectInteraction [key]))) e"

text \<open>
  A ballot for \<open>key\<close> on \<open>vote\<close> is accepted in world \<open>w\<close> when no external call fails, the
  poll is still open and the key is one of its options.
\<close>

definition accepted :: "Vote \<Rightarrow> world \<times> string \<Rightarrow> bool" where
  "accepted vote c =
     (\<not> readFails (fst c) \<and> \<not> editFails (fst c) \<and> \<not> writeFails (fst c)
      \<and> now (fst c) < EndTime vote \<and> Options vote (snd c) \<noteq> None)"

text \<open>
  The stores the handlers can produce from the empty store: any handler, with any
  arguments, in any world.
\<close>

inductive reachable :: "KeyValueStore \<Rightarrow> bool" where
  init: "reachable emptyStore"
| grant: "reachable kvs \<Longrightarrow> reachable (snd (SubCommandAccessGrant env w kvs guildID options))"
| revoke: "reachable kvs \<Longrightarrow> reachable (snd (SubCommandAccessRevoke env w kvs guildID options))"
| create: "reachable kvs \<Longrightarrow> Callback (VoteModalHandler venv w keys guildID data) = Some vote
     \<Longrightarrow> reachable (VoteCallback w' vote messageID channelID kvs)"
| cast: "reachable kvs \<Longrightarrow> reachable (snd (handleInteractionAsVote w kvs e interaction))"
| delete: "reachable kvs \<Longrightarrow> reachable (DeleteVote w kvs guildID messageID)"

section \<open>Handlers running side by side\<close>

text \<open>
  A handler in progress. Each of the three read-modify-write handlers makes two calls
  into the store: a read (\<open>GetObject\<close>, \<open>GetVote\<close>) and later a write (\<open>Set\<close>,
  \<open>Vote.Store\<close>). A started handler has made neither; one that has read holds the
  result of its read in its local variables; a finished one holds its result. The
  store is the only state the handlers share, and handlers of different interactions
  run side by side, so between the two calls of one handler the calls of another may
  take place. Each single store call is taken to be atomic, which is the most a store
  can do for callers that hand it no transaction.
\<close>

datatype task =
    GrantStart Snowflake string Snowflake
  | GrantRead Snowflake string Snowflake "Snowflake list option"
  | RevokeStart Snowflake string Snowflake
  | RevokeRead Snowflake string Snowflake "Snowflake list option"
  | CastStart InteractionCreateEvent ComponentInteraction
  | CastRead InteractionCreateEvent ComponentInteraction Vote
  | Finished InteractionResponse
  | FinishedVote VoteResult

fun step :: "world \<Rightarrow> KeyValueStore \<Rightarrow> task \<Rightarrow> task \<times> KeyValueStore" where
  "step w kvs (GrantStart guildID commandGroup roleID) =
     (case GetObject (readFails w) kvs guildID commandGroup of
        Inl err \<Rightarrow> (Finished errorLogged, kvs)
      | Inr r \<Rightarrow> (GrantRead guildID commandGroup roleID r, kvs))"
| "step w kvs (GrantRead guildID commandGroup roleID r) =
     (case grantWrite w kvs guildID commandGroup roleID r of
        (resp, kvs') \<Rightarrow> (Finished resp, kvs'))"
| "step w kvs (RevokeStart guildID commandGroup roleID) =
     (case GetObject (readFails w) kvs guildID commandGroup of
        Inl err \<Rightarrow> (Finished errorLogged, kvs)
      | Inr r \<Rightarrow> (RevokeRead guildID commandGroup roleID r, kvs))"
| "step w kvs (RevokeRead guildID commandGroup roleID r) =
     (case revokeWrite w kvs guildID commandGroup roleID r of
        (resp, kvs') \<Rightarrow> (Finished resp, kvs'))"
| "step w kvs (CastStart e interaction) =
     (case GetVote (readFails w) kvs (eGuildID e) (eMessageID e) of
        Inl err \<Rightarrow> (FinishedVote (True, ''Something very odd happened.'', Some err), kvs)
      | Inr None \<Rightarrow> (FinishedVote (False, [], None), kvs)
      | Inr (Some vote) \<Rightarrow> (CastRead e interaction vote, kvs))"
| "step w kvs (CastRead e interaction vote) =
     (case castBallot w kvs e interaction vote of
        (res, kvs') \<Rightarrow> (FinishedVote res, kvs'))"
| "step w kvs (Finished resp) = (Finished resp, kvs)"
| "step w kvs (FinishedVote res) = (FinishedVote res, kvs)"

text \<open>
  A schedule names, call by call, the handler that makes its next call into the store.
\<close>

fun run :: "world \<Rightarrow> nat list \<Rightarrow> task list \<Rightarrow> KeyValueStore \<Rightarrow> task list \<times> KeyValueStore" where
  "run w [] ts kvs = (ts, kvs)"
| "run w (i # sched) ts kvs =
     (if i < length ts then
        (case step w kvs (ts ! i) of (t', kvs') \<Rightarrow> run w sched (ts[i := t']) kvs')
      else run w sched ts kvs)"

section \<open>Invariants of the store\<close>

text \<open>
  A stored role list holds no role twice; a stored vote lies under its own guild and
  message ID, and every ballot in it names one of its options.
\<close>

definition accessInv :: "KeyValueStore \<Rightarrow> bool" where
  "accessInv kvs = (\<forall>k g. access kvs k = Some g \<longrightarrow> distinct g)"

definition votesInv :: "KeyValueStore \<Rightarrow> bool" where
  "votesInv kvs =
     (\<forall>g m v. votes kvs (g, m) = Some v \<longrightarrow>
        GuildID v = g \<and> MessageID v = m \<and> ran (Votes v) \<subseteq> dom (Options v))"

section \<open>A running example\<close>

text \<open>
  A world in which no external call fails, a one-day poll ("Lunch?", options Pizza and
  Tacos) created at time 1000 in guild 1, its message 50 in channel 7, and a voter's
  click on that message.
\<close>

definition calm :: "int \<Rightarrow> world" where
  "calm t = \<lparr>now = t, readFails = False, editFails = False, writeFails = False\<rparr>"

definition exampleEnv :: voteEnv where
  "exampleEnv =
     \<lparr>FormatFloat = (\<lambda>d. if d = 0 then ''0.000000'' else if d = 1 then ''1.000000'' else ''?''),
      ParseFloat = (\<lambda>s. if s = ''0.000000'' then Some 0
                         else if s = ''1.000000'' then Some 1 else None)\<rparr>"

definition lunchForm :: "(string \<times> string) list" where
  "lunchForm = [(''desc/1.000000'', ''Lunch?''), (''options'', ''Pizza'' @ [newline] @ ''Tacos'')]"

definition lunchDraft :: Vote where
  "lunchDraft =
     \<lparr>StartTime = 1000, EndTime = 87400, GuildID = 1, MessageID = 0, ChannelID = 0,
      Question = ''Lunch?'', Options = [''vote/0'' \<mapsto> ''Pizza'', ''vote/1'' \<mapsto> ''Tacos''],
      Order = [''vote/0'', ''vote/1''], Votes = Map.empty\<rparr>"

definition lunch :: Vote where
  "lunch = lunchDraft\<lparr>MessageID := 50, ChannelID := 7\<rparr>"

definition lunchStore :: KeyValueStore where
  "lunchStore = \<lparr>access = Map.empty, votes = [(1, 50) \<mapsto> lunch]\<rparr>"

definition click :: "Snowflake \<Rightarrow> InteractionCreateEvent" where
  "click u = \<lparr>eGuildID = 1, eChannelID = 7, eMessageID = 50, eSenderID = u\<rparr>"

text \<open>The store after voter 3 has cast a ballot for Tacos.\<close>

definition lunchVoted :: KeyValueStore where
  "lunchVoted = \<lparr>access = Map.empty,
                  votes = [(1, 50) \<mapsto> lunch\<lparr>Votes := [3 \<mapsto> ''vote/1'']\<rparr>]\<rparr>"

text \<open>
  An access environment with three command groups and an already lower-case group name,
  and the two options of a grant or revoke request.
\<close>

definition faqEnv :: accessEnv where
  "faqEnv = \<lparr>ToLower = (\<lambda>s. s), commandGroups = [''access'', ''faqadmin'', ''faquser'']\<rparr>"

definition grantRequest :: "string \<Rightarrow> Snowflake \<Rightarrow> CommandInteractionOption list" where
  "grantRequest commandGroup roleID =
     [\<lparr>optString = commandGroup, optSnowflake = None\<rparr>,
      \<lparr>optString = Itoa roleID, optSnowflake = Some roleID\<rparr>]"




section \<open>Lemmas: the handlers keep the invariants\<close>

lemma revokeLoop_unfold:
  "idx < length g \<Longrightarrow> g ! idx = r \<Longrightarrow> revokeLoop idx r g = butlast (g[idx := last g])"
  "idx < length g \<Longrightarrow> g ! idx \<noteq> r \<Longrightarrow> revokeLoop idx r g = revokeLoop (Suc idx) r g"
  "\<not> idx < length g \<Longrightarrow> revokeLoop idx r g = g"
  by (simp_all add: revokeLoop.simps)

lemma distinct_swap_remove:
  assumes "distinct g" "idx < length g"
  shows "distinct (butlast (g[idx := last g]))"
proof -
  from assms(2) have "g \<noteq> []" by auto
  then obtain xs l where g: "g = xs @ [l]"
    by (metis append_butlast_last_id)
  from assms(1) g have d: "distinct xs" "l \<notin> set xs" by auto
  show ?thesis
  proof (cases "idx < length xs")
    case True
    then have "butlast (g[idx := last g]) = xs[idx := l]"
      by (simp add: g list_update_append1)
    then show ?thesis using d by (simp add: distinct_list_update)
  next
    case False
    with assms(2) g have "idx = length xs" by simp
    then have "butlast (g[idx := last g]) = xs" by (simp add: g)
    then show ?thesis using d by simp
  qed
qed

lemma revokeLoop_distinct: "distinct g \<Longrightarrow> distinct (revokeLoop idx r g)"
proof (induction idx r g rule: revokeLoop.induct)
  case (1 idx roleID granted)
  show ?case
  proof (cases "idx < length granted")
    case True
    then show ?thesis using 1 distinct_swap_remove
      by (cases "granted ! idx = roleID") (simp_all add: revokeLoop_unfold)
  next
    case False
    then show ?thesis using 1 by (simp add: revokeLoop_unfold)
  qed
qed

lemma grantWrite_votes: "votes (snd (grantWrite w kvs g c r x)) = votes kvs"
  by (simp add: grantWrite_def Set_def Let_def)

lemma revokeWrite_votes: "votes (snd (revokeWrite w kvs g c r x)) = votes kvs"
  by (simp add: revokeWrite_def Set_def Let_def)

lemma grant_votes: "votes (snd (SubCommandAccessGrant env w kvs g opts)) = votes kvs"
  by (simp add: SubCommandAccessGrant_def GetObject_def Let_def grantWrite_votes
      split: option.splits)

lemma revoke_votes: "votes (snd (SubCommandAccessRevoke env w kvs g opts)) = votes kvs"
  by (simp add: SubCommandAccessRevoke_def GetObject_def Let_def revokeWrite_votes
      split: option.splits)

lemma grantWrite_accessInv:
  "accessInv kvs \<Longrightarrow> access kvs (g, c) = x \<Longrightarrow> accessInv (snd (grantWrite w kvs g c r x))"
  by (auto simp: accessInv_def grantWrite_def Set_def Let_def ContainsRole_def
      split: option.splits)

lemma revokeWrite_accessInv:
  "accessInv kvs \<Longrightarrow> access kvs (g, c) = x \<Longrightarrow> accessInv (snd (revokeWrite w kvs g c r x))"
  by (auto simp: accessInv_def revokeWrite_def Set_def Let_def ContainsRole_def
      revokeLoop_distinct split: option.splits)

lemma grant_accessInv:
  "accessInv kvs \<Longrightarrow> accessInv (snd (SubCommandAccessGrant env w kvs g opts))"
  by (simp add: SubCommandAccessGrant_def GetObject_def Let_def grantWrite_accessInv
      split: option.splits)

lemma revoke_accessInv:
  "accessInv kvs \<Longrightarrow> accessInv (snd (SubCommandAccessRevoke env w kvs g opts))"
  by (simp add: SubCommandAccessRevoke_def GetObject_def Let_def revokeWrite_accessInv
      split: option.splits)

lemma optionsLoop_keeps:
  "Votes (optionsLoop i opts v) = Votes v \<and> GuildID (optionsLoop i opts v) = GuildID v
   \<and> StartTime (optionsLoop i opts v) = StartTime v \<and> EndTime (optionsLoop i opts v) = EndTime v
   \<and> Question (optionsLoop i opts v) = Question v"
  by (induction i opts v rule: optionsLoop.induct) (simp_all add: Let_def)

lemma modalLoop_keeps:
  "modalLoop env data v = Inr v' \<Longrightarrow> Votes v' = Votes v \<and> GuildID v' = GuildID v
     \<and> StartTime v' = StartTime v"
proof (induction env data v rule: modalLoop.induct)
  case (1 env vote)
  then show ?case by simp
next
  case (2 env key val rest vote)
  then show ?case
    by (auto simp: optionsLoop_keeps split: if_splits option.splits)
qed

lemma VoteModalHandler_votes:
  "Callback (VoteModalHandler env w keys g data) = Some v \<Longrightarrow> Votes v = Map.empty \<and> GuildID v = g"
  by (auto simp: VoteModalHandler_def Let_def split: sum.splits dest: modalLoop_keeps)

lemma callback_access: "access (VoteCallback w v m c kvs) = access kvs"
  by (simp add: VoteCallback_def Store_def)

lemma callback_votesInv:
  "votesInv kvs \<Longrightarrow> Votes v = Map.empty \<Longrightarrow> votesInv (VoteCallback w v m c kvs)"
  by (auto simp: votesInv_def VoteCallback_def Store_def)

lemma delete_access: "access (DeleteVote w kvs g m) = access kvs"
  by (simp add: DeleteVote_def Delete_def)

lemma delete_votesInv: "votesInv kvs \<Longrightarrow> votesInv (DeleteVote w kvs g m)"
  by (auto simp: votesInv_def DeleteVote_def Delete_def)

lemma castBallot_access: "access (snd (castBallot w kvs e i v)) = access kvs"
  by (simp add: castBallot_def Store_def Let_def
      split: ComponentInteraction.splits option.splits)

lemma cast_access: "access (snd (handleInteractionAsVote w kvs e i)) = access kvs"
  by (simp add: handleInteractionAsVote_def GetVote_def castBallot_access split: option.splits)

lemma castBallot_votesInv:
  assumes "votesInv kvs" "votes kvs (eGuildID e, eMessageID e) = Some v"
  shows "votesInv (snd (castBallot w kvs e i v))"
proof -
  from assms have own: "ran (Votes v) \<subseteq> dom (Options v)"
    by (auto simp: votesInv_def)
  have upd: "ran ((Votes v)(u \<mapsto> c)) \<subseteq> dom (Options v)" if "Options v c = Some l" for u c l
    using own that by (auto simp: ran_def)
  show ?thesis
    using assms(1) upd
    by (auto simp: castBallot_def Store_def Let_def votesInv_def
        split: ComponentInteraction.splits option.splits) blast
qed

lemma cast_votesInv: "votesInv kvs \<Longrightarrow> votesInv (snd (handleInteractionAsVote w kvs e i))"
  by (simp add: handleInteractionAsVote_def GetVote_def castBallot_votesInv split: option.splits)

lemma accessInv_votes_irrelevant: "access kvs' = access kvs \<Longrightarrow> accessInv kvs \<Longrightarrow> accessInv kvs'"
  by (simp add: accessInv_def)

lemma votesInv_access_irrelevant: "votes kvs' = votes kvs \<Longrightarrow> votesInv kvs \<Longrightarrow> votesInv kvs'"
  by (simp add: votesInv_def)

lemma reachable_inv: "reachable kvs \<Longrightarrow> accessInv kvs \<and> votesInv kvs"
proof (induction rule: reachable.induct)
  case init
  show ?case by (simp add: accessInv_def votesInv_def emptyStore_def)
next
  case (grant kvs env w guildID options)
  then show ?case
    using grant_accessInv grant_votes votesInv_access_irrelevant by blast
next
  case (revoke kvs env w guildID options)
  then show ?case
    using revoke_accessInv revoke_votes votesInv_access_irrelevant by blast
next
  case (create kvs venv w keys guildID data vote w' messageID channelID)
  then show ?case
    using VoteModalHandler_votes callback_votesInv callback_access accessInv_votes_irrelevant
    by blast
next
  case (cast kvs w e interaction)
  then show ?case
    using cast_votesInv cast_access accessInv_votes_irrelevant by blast
next
  case (delete kvs w guildID messageID)
  then show ?case
    using delete_votesInv delete_access accessInv_votes_irrelevant by blast
qed

section \<open>Lemmas: the running example\<close>

lemma Split_lunch: "Split (''Pizza'' @ [newline] @ ''Tacos'') = [''Pizza'', ''Tacos'']"
  by (simp add: newline_def)

lemma Itoa_small: "n < 10 \<Longrightarrow> Itoa n = [digit n]"
  by (simp add: Itoa.simps)

lemma lunch_created:
  "VoteModalHandler exampleEnv (calm 1000) [''vote/0'', ''vote/1''] 1 lunchForm =
     \<lparr>Response = VoteMessage [\<lparr>Label = ''Pizza'', Value = ''vote/0''\<rparr>,
                               \<lparr>Label = ''Tacos'', Value = ''vote/1''\<rparr>],
      Callback = Some lunchDraft\<rparr>"
  by (simp add: VoteModalHandler_def lunchForm_def Split_lunch HasPrefix_def TrimPrefix_def
      exampleEnv_def calm_def int64_def newline_def Itoa_small digit_def lunchDraft_def
      NullMessageID_def NullChannelID_def makeVoteSelector_def Let_def)

lemma lunch_stored: "VoteCallback (calm 1001) lunchDraft 50 7 emptyStore = lunchStore"
  by (simp add: VoteCallback_def Store_def calm_def lunchDraft_def lunch_def lunchStore_def
      emptyStore_def)

lemma lunchStore_reachable: "reachable lunchStore"
proof -
  have "Callback (VoteModalHandler exampleEnv (calm 1000) [''vote/0'', ''vote/1''] 1 lunchForm)
          = Some lunchDraft"
    unfolding lunch_created by simp
  from reachable.create [OF reachable.init this, of "calm 1001" 50 7]
  show ?thesis by (simp add: lunch_stored)
qed

section \<open>Ballots on a closed poll\<close>

text \<open>
  C2. A ballot cast on a stored vote whose \<open>EndTime\<close> is less than or equal to the current
  time writes nothing: the store after the call is the store before it, whatever the
  interaction holds. When the read succeeds, the handler's result is the "poll closed"
  text with no error, and that text is what \<open>ComponentVote\<close> shows the voter.
\<close>

theorem closed_poll_rejects_ballot:
  assumes "votes kvs (eGuildID e, eMessageID e) = Some vote" and "EndTime vote \<le> now w"
  shows "snd (handleInteractionAsVote w kvs e interaction) = kvs
         \<and> (\<not> readFails w \<longrightarrow>
              fst (handleInteractionAsVote w kvs e interaction) = (True, voteClosed, None)
              \<and> fst (ComponentVote w kvs e interaction) = Ephemeral voteClosed)"
  using assms
  by (simp add: handleInteractionAsVote_def ComponentVote_def GetVote_def castBallot_def
      voteClosed_def)

theorem closed_poll_rejects_ballot_witness:
  "votes lunchStore (eGuildID (click 3), eMessageID (click 3)) = Some lunch
   \<and> EndTime lunch \<le> now (calm 87400)
   \<and> \<not> readFails (calm 87400)
   \<and> handleInteractionAsVote (calm 87400) lunchStore (click 3) (SelectInteraction [''vote/0''])
       = ((True, voteClosed, None), lunchStore)"
proof -
  have h1: "votes lunchStore (eGuildID (click 3), eMessageID (click 3)) = Some lunch"
    by (simp add: lunchStore_def click_def)
  have h2: "EndTime lunch \<le> now (calm 87400)"
    by (simp add: lunch_def lunchDraft_def calm_def)
  have h3: "\<not> readFails (calm 87400)" by (simp add: calm_def)
  from closed_poll_rejects_ballot [OF h1 h2, of "SelectInteraction [''vote/0'']"] h1 h2 h3
  show ?thesis by (simp add: prod_eq_iff)
qed

section \<open>Ballots that do not select exactly one option\<close>

text \<open>
  C10. On a stored, still open poll whose record was read, a selection that holds any
  number of values other than one is answered with "You must select exactly one item"
  and an error, and the store is left as it was.
\<close>

theorem wrong_selection_count_rejected:
  assumes "votes kvs (eGuildID e, eMessageID e) = Some vote" and "now w < EndTime vote"
    and "\<not> readFails w" and "length values \<noteq> 1"
  shows "handleInteractionAsVote w kvs e (SelectInteraction values) =
           ((True, ''You must select exactly one item'',
             Some (WrongSelectionCount (length values))), kvs)"
  using assms
  by (simp add: handleInteractionAsVote_def GetVote_def castBallot_def)

theorem wrong_selection_count_rejected_witness:
  "handleInteractionAsVote (calm 2000) lunchStore (click 3)
      (SelectInteraction [''vote/0'', ''vote/1'']) =
         ((True, ''You must select exactly one item'', Some (WrongSelectionCount 2)), lunchStore)
   \<and> handleInteractionAsVote (calm 2000) lunchStore (click 3) (SelectInteraction []) =
         ((True, ''You must select exactly one item'', Some (WrongSelectionCount 0)), lunchStore)"
proof -
  have h1: "votes lunchStore (eGuildID (click 3), eMessageID (click 3)) = Some lunch"
    by (simp add: lunchStore_def click_def)
  have h2: "now (calm 2000) < EndTime lunch"
    by (simp add: lunch_def lunchDraft_def calm_def)
  have h3: "\<not> readFails (calm 2000)" by (simp add: calm_def)
  from wrong_selection_count_rejected [OF h1 h2 h3, of "[''vote/0'', ''vote/1'']"]
    wrong_selection_count_rejected [OF h1 h2 h3, of "[]"]
  show ?thesis by simp
qed

section \<open>Ballots name options of their poll\<close>

lemma lunch_vote_cast:
  "handleInteractionAsVote (calm 2000) lunchStore (click 3) (SelectInteraction [''vote/1'']) =
     ((True, registered ''Tacos'', None), lunchVoted)"
  by (simp add: handleInteractionAsVote_def GetVote_def castBallot_def Store_def calm_def
      lunchStore_def click_def lunch_def lunchDraft_def lunchVoted_def Let_def)

lemma lunchVoted_reachable: "reachable lunchVoted"
  using reachable.cast [OF lunchStore_reachable, of "calm 2000" "click 3" "SelectInteraction [''vote/1'']"]
  unfolding lunch_vote_cast by simp

lemma reachable_ballot_option:
  assumes "reachable kvs" "votes kvs k = Some v" "Votes v u = Some c"
  shows "Options v c \<noteq> None"
proof -
  from assms(1) have "votesInv kvs" by (simp add: reachable_inv)
  with assms(2) have "ran (Votes v) \<subseteq> dom (Options v)"
    by (cases k) (auto simp: votesInv_def)
  moreover from assms(3) have "c \<in> ran (Votes v)" by (auto simp: ran_def)
  ultimately show ?thesis by auto
qed

text \<open>
  C3. In every store the handlers can produce from the empty store, every value of a stored
  vote's \<open>Votes\<close> map is a key of its \<open>Options\<close> map; reachability covers every handler,
  so no operation inserts another kind of value. A ballot whose option-key is not in
  \<open>Options\<close> leaves the store as it was, and on an open poll that was read it is answered
  with "Sorry, you can't vote for that." and an error.
\<close>

theorem ballots_name_options:
  "(reachable kvs \<and> votes kvs k = Some v \<and> Votes v u = Some c \<longrightarrow> Options v c \<noteq> None)
   \<and> (votes kvs (eGuildID e, eMessageID e) = Some v' \<and> Options v' key = None \<longrightarrow>
        snd (handleInteractionAsVote w kvs e (SelectInteraction [key])) = kvs
        \<and> (\<not> readFails w \<and> now w < EndTime v' \<longrightarrow>
             fst (handleInteractionAsVote w kvs e (SelectInteraction [key])) =
               (True, ''Sorry, you can't vote for that.'', Some (NotAnOption key))))"
proof (intro conjI impI)
  assume "reachable kvs \<and> votes kvs k = Some v \<and> Votes v u = Some c"
  then show "Options v c \<noteq> None" using reachable_ballot_option by blast
next
  assume a: "votes kvs (eGuildID e, eMessageID e) = Some v' \<and> Options v' key = None"
  then show "snd (handleInteractionAsVote w kvs e (SelectInteraction [key])) = kvs"
    by (simp add: handleInteractionAsVote_def GetVote_def castBallot_def)
  assume "\<not> readFails w \<and> now w < EndTime v'"
  with a show "fst (handleInteractionAsVote w kvs e (SelectInteraction [key])) =
               (True, ''Sorry, you can't vote for that.'', Some (NotAnOption key))"
    by (simp add: handleInteractionAsVote_def GetVote_def castBallot_def)
qed

theorem ballots_name_options_witness:
  "reachable lunchVoted
   \<and> votes lunchVoted (1, 50) = Some (lunch\<lparr>Votes := [3 \<mapsto> ''vote/1'']\<rparr>)
   \<and> Votes (lunch\<lparr>Votes := [3 \<mapsto> ''vote/1'']\<rparr>) 3 = Some ''vote/1''
   \<and> Options (lunch\<lparr>Votes := [3 \<mapsto> ''vote/1'']\<rparr>) ''vote/1'' \<noteq> None
   \<and> Options (lunch\<lparr>Votes := [3 \<mapsto> ''vote/1'']\<rparr>) ''vote/9'' = None
   \<and> \<not> readFails (calm 2000)
   \<and> now (calm 2000) < EndTime (lunch\<lparr>Votes := [3 \<mapsto> ''vote/1'']\<rparr>)
   \<and> handleInteractionAsVote (calm 2000) lunchVoted (click 4) (SelectInteraction [''vote/9'']) =
        ((True, ''Sorry, you can't vote for that.'', Some (NotAnOption ''vote/9'')), lunchVoted)"
proof -
  let ?v = "lunch\<lparr>Votes := [3 \<mapsto> ''vote/1'']\<rparr>"
  have h1: "votes lunchVoted (1, 50) = Some ?v" by (simp add: lunchVoted_def)
  have h2: "Votes ?v 3 = Some ''vote/1''" by simp
  have h3: "votes lunchVoted (eGuildID (click 4), eMessageID (click 4)) = Some ?v"
    by (simp add: lunchVoted_def click_def)
  have h4: "Options ?v ''vote/9'' = None" by (simp add: lunch_def lunchDraft_def)
  have h5: "\<not> readFails (calm 2000) \<and> now (calm 2000) < EndTime ?v"
    by (simp add: calm_def lunch_def lunchDraft_def)
  from ballots_name_options [of lunchVoted "(1, 50)" ?v 3 "''vote/1''" "click 4" ?v "''vote/9''"
      "calm 2000"] lunchVoted_reachable h1 h2 h3 h4 h5
  show ?thesis by (simp add: prod_eq_iff)
qed

section \<open>The last ballot of a voter wins\<close>

lemma accepted_cast:
  assumes "votes kvs (eGuildID e, eMessageID e) = Some v"
    and "GuildID v = eGuildID e" "MessageID v = eMessageID e"
    and "accepted v (w, key)"
  shows "snd (handleInteractionAsVote w kvs e (SelectInteraction [key])) =
           kvs\<lparr>votes := (votes kvs)((eGuildID e, eMessageID e) \<mapsto>
                   v\<lparr>Votes := (Votes v)(eSenderID e \<mapsto> key)\<rparr>)\<rparr>"
  using assms
  by (auto simp: handleInteractionAsVote_def GetVote_def castBallot_def Store_def accepted_def
      Let_def)

lemma accepted_after_cast: "accepted (v\<lparr>Votes := m\<rparr>) c = accepted v c"
  by (simp add: accepted_def)

lemma castAll_accepted:
  assumes "votes kvs (eGuildID e, eMessageID e) = Some v"
    and "GuildID v = eGuildID e" "MessageID v = eMessageID e"
    and "cs \<noteq> []" and "\<forall>c \<in> set cs. accepted v c"
  shows "votes (castAll cs kvs e) (eGuildID e, eMessageID e) =
           Some (v\<lparr>Votes := (Votes v)(eSenderID e \<mapsto> snd (last cs))\<rparr>)"
  using assms
proof (induction cs arbitrary: kvs v)
  case Nil
  then show ?case by simp
next
  case (Cons c cs)
  obtain w key where c: "c = (w, key)" by (cases c)
  let ?v = "v\<lparr>Votes := (Votes v)(eSenderID e \<mapsto> key)\<rparr>"
  let ?kvs = "kvs\<lparr>votes := (votes kvs)((eGuildID e, eMessageID e) \<mapsto> ?v)\<rparr>"
  from Cons.prems c have step:
    "snd (handleInteractionAsVote w kvs e (SelectInteraction [key])) = ?kvs"
    by (intro accepted_cast) auto
  show ?case
  proof (cases "cs = []")
    case True
    then show ?thesis by (simp add: c step, intro Vote.equality) (simp_all add: fun_eq_iff)
  next
    case False
    have "votes (castAll cs ?kvs e) (eGuildID e, eMessageID e) =
            Some (?v\<lparr>Votes := (Votes ?v)(eSenderID e \<mapsto> snd (last cs))\<rparr>)"
      using Cons.prems False by (intro Cons.IH) (auto simp: accepted_after_cast)
    then show ?thesis using False
      by (simp add: c step, intro Vote.equality) (simp_all add: fun_eq_iff)
  qed
qed

lemma reachable_own_key:
  "reachable kvs \<Longrightarrow> votes kvs (g, m) = Some v \<Longrightarrow> GuildID v = g \<and> MessageID v = m"
  using reachable_inv by (auto simp: votesInv_def)

text \<open>
  C4. After any non-empty sequence of accepted ballots of one voter on one stored poll, the
  stored vote is the original one with the voter's entry set to the option-key of the last
  ballot: one entry for the voter, the other entries and fields as before. On a poll that
  had no ballots, the tally total is then 1 and the count of the last choice is 1.
\<close>

theorem last_ballot_wins:
  assumes "reachable kvs" and "votes kvs (eGuildID e, eMessageID e) = Some v"
    and "cs \<noteq> []" and "\<forall>c \<in> set cs. accepted v c"
  shows "votes (castAll cs kvs e) (eGuildID e, eMessageID e) =
           Some (v\<lparr>Votes := (Votes v)(eSenderID e \<mapsto> snd (last cs))\<rparr>)
         \<and> (Votes v = Map.empty \<longrightarrow>
              tallyTotal (v\<lparr>Votes := (Votes v)(eSenderID e \<mapsto> snd (last cs))\<rparr>) = 1
              \<and> tallyCount (v\<lparr>Votes := (Votes v)(eSenderID e \<mapsto> snd (last cs))\<rparr>)
                   (snd (last cs)) = 1)"
proof -
  from assms(1,2) have own: "GuildID v = eGuildID e" "MessageID v = eMessageID e"
    using reachable_own_key by blast+
  have "{u. u = eSenderID e} = {eSenderID e}" by auto
  then have tally: "Votes v = Map.empty \<longrightarrow>
      tallyTotal (v\<lparr>Votes := (Votes v)(eSenderID e \<mapsto> snd (last cs))\<rparr>) = 1
      \<and> tallyCount (v\<lparr>Votes := (Votes v)(eSenderID e \<mapsto> snd (last cs))\<rparr>) (snd (last cs)) = 1"
    by (simp add: tallyTotal_def tallyCount_def)
  from castAll_accepted [OF assms(2) own assms(3,4)] tally show ?thesis by blast
qed

theorem last_ballot_wins_witness:
  "reachable lunchStore
   \<and> votes lunchStore (eGuildID (click 3), eMessageID (click 3)) = Some lunch
   \<and> accepted lunch (calm 2000, ''vote/0'') \<and> accepted lunch (calm 3000, ''vote/1'')
   \<and> votes (castAll [(calm 2000, ''vote/0''), (calm 3000, ''vote/1'')] lunchStore (click 3))
        (1, 50) = Some (lunch\<lparr>Votes := [3 \<mapsto> ''vote/1'']\<rparr>)
   \<and> tallyTotal (lunch\<lparr>Votes := [3 \<mapsto> ''vote/1'']\<rparr>) = 1
   \<and> tallyCount (lunch\<lparr>Votes := [3 \<mapsto> ''vote/1'']\<rparr>) ''vote/1'' = 1"
proof -
  let ?cs = "[(calm 2000, ''vote/0''), (calm 3000, ''vote/1'')]"
  have h1: "votes lunchStore (eGuildID (click 3), eMessageID (click 3)) = Some lunch"
    by (simp add: lunchStore_def click_def)
  have h2: "?cs \<noteq> []" by simp
  have h3: "\<forall>c \<in> set ?cs. accepted lunch c"
    by (simp add: accepted_def calm_def lunch_def lunchDraft_def)
  have h4: "Votes lunch = Map.empty" by (simp add: lunch_def lunchDraft_def)
  from last_ballot_wins [OF lunchStore_reachable h1 h2 h3] h4
  have "votes (castAll ?cs lunchStore (click 3)) (1, 50) = Some (lunch\<lparr>Votes := [3 \<mapsto> ''vote/1'']\<rparr>)
     \<and> tallyTotal (lunch\<lparr>Votes := [3 \<mapsto> ''vote/1'']\<rparr>) = 1
     \<and> tallyCount (lunch\<lparr>Votes := [3 \<mapsto> ''vote/1'']\<rparr>) ''vote/1'' = 1"
    by (simp add: click_def)
  with lunchStore_reachable h1 h3 show ?thesis by simp
qed

section \<open>Granting access twice\<close>

lemma grant_effect:
  assumes "length options = 2" and "ToLower env (optString (options ! 0)) = commandGroup"
    and "optSnowflake (options ! 1) = Some roleID" and "commandGroup \<in> set (commandGroups env)"
    and "\<not> readFails w" and "\<not> writeFails w"
  shows "snd (SubCommandAccessGrant env w kvs guildID options) =
     (case access kvs (guildID, commandGroup) of
        None \<Rightarrow> kvs\<lparr>access := (access kvs)((guildID, commandGroup) \<mapsto> [roleID])\<rparr>
      | Some g \<Rightarrow> if roleID \<in> set g then kvs
                  else kvs\<lparr>access := (access kvs)((guildID, commandGroup) \<mapsto> g @ [roleID])\<rparr>)"
  using assms
  by (simp add: SubCommandAccessGrant_def GetObject_def grantWrite_def Set_def ContainsString_def
      ContainsRole_def Let_def split: option.splits)

lemma grant_present:
  assumes "length options = 2" and "ToLower env (optString (options ! 0)) = commandGroup"
    and "optSnowflake (options ! 1) = Some roleID"
    and "access kvs (guildID, commandGroup) = Some g" and "roleID \<in> set g"
  shows "snd (SubCommandAccessGrant env w kvs guildID options) = kvs"
  using assms
  by (simp add: SubCommandAccessGrant_def GetObject_def grantWrite_def Set_def
      ContainsRole_def Let_def split: option.splits)

lemma grant_then_present:
  assumes "length options = 2" and "ToLower env (optString (options ! 0)) = commandGroup"
    and "optSnowflake (options ! 1) = Some roleID" and "commandGroup \<in> set (commandGroups env)"
    and "\<not> readFails w" and "\<not> writeFails w"
  shows "\<exists>g. access (snd (SubCommandAccessGrant env w kvs guildID options))
               (guildID, commandGroup) = Some g \<and> roleID \<in> set g"
  unfolding grant_effect [OF assms]
  by (auto split: option.splits)

lemma grantAll_present:
  assumes "length options = 2" and "ToLower env (optString (options ! 0)) = commandGroup"
    and "optSnowflake (options ! 1) = Some roleID"
    and "access kvs (guildID, commandGroup) = Some g" and "roleID \<in> set g"
  shows "grantAll env ws kvs guildID options = kvs"
  by (induction ws) (simp_all add: grant_present [OF assms])

lemma count_list_distinct: "distinct g \<Longrightarrow> r \<in> set g \<Longrightarrow> count_list g r = 1"
  by (induction g) auto

text \<open>
  C9. For a well-formed grant request on a reachable store: granting a role that the stored
  list already holds leaves the store unchanged, in any world; any non-empty sequence of
  grants of the same role whose store calls succeed leaves the store that the first grant
  alone leaves, and the stored list then holds the role exactly once.
\<close>

theorem grant_idempotent:
  assumes "reachable kvs" and "length options = 2"
    and "ToLower env (optString (options ! 0)) = commandGroup"
    and "optSnowflake (options ! 1) = Some roleID"
    and "commandGroup \<in> set (commandGroups env)"
  shows "(access kvs (guildID, commandGroup) = Some g \<and> roleID \<in> set g \<longrightarrow>
            snd (SubCommandAccessGrant env w kvs guildID options) = kvs)
         \<and> (ws \<noteq> [] \<and> (\<forall>w \<in> set ws. \<not> readFails w \<and> \<not> writeFails w) \<longrightarrow>
              grantAll env ws kvs guildID options =
                snd (SubCommandAccessGrant env (hd ws) kvs guildID options)
              \<and> (\<exists>g'. access (grantAll env ws kvs guildID options) (guildID, commandGroup)
                         = Some g' \<and> count_list g' roleID = 1))"
proof (intro conjI impI)
  assume "access kvs (guildID, commandGroup) = Some g \<and> roleID \<in> set g"
  then show "snd (SubCommandAccessGrant env w kvs guildID options) = kvs"
    using grant_present [OF assms(2-4)] by blast
next
  assume a: "ws \<noteq> [] \<and> (\<forall>w \<in> set ws. \<not> readFails w \<and> \<not> writeFails w)"
  then obtain w0 rest where ws: "ws = w0 # rest" by (cases ws) auto
  with a have calm: "\<not> readFails w0" "\<not> writeFails w0" by auto
  let ?k = "snd (SubCommandAccessGrant env w0 kvs guildID options)"
  from grant_then_present [OF assms(2-5) calm]
  obtain g' where g': "access ?k (guildID, commandGroup) = Some g'" "roleID \<in> set g'"
    by blast
  have once: "grantAll env ws kvs guildID options = ?k"
    by (simp add: ws grantAll_present [OF assms(2-4) g'])
  then show "grantAll env ws kvs guildID options =
      snd (SubCommandAccessGrant env (hd ws) kvs guildID options)"
    by (simp add: ws)
  have "reachable ?k" using assms(1) by (rule reachable.grant)
  then have "distinct g'" using g'(1) reachable_inv by (auto simp: accessInv_def)
  then have "count_list g' roleID = 1" using g'(2) by (rule count_list_distinct)
  with g'(1) once
  show "\<exists>g'. access (grantAll env ws kvs guildID options) (guildID, commandGroup) = Some g'
           \<and> count_list g' roleID = 1"
    by simp
qed

theorem grant_idempotent_witness:
  "reachable emptyStore
   \<and> grantAll faqEnv [calm 10, calm 20] emptyStore 1 (grantRequest ''faqadmin'' 42) =
       snd (SubCommandAccessGrant faqEnv (calm 10) emptyStore 1 (grantRequest ''faqadmin'' 42))
   \<and> access (grantAll faqEnv [calm 10, calm 20] emptyStore 1 (grantRequest ''faqadmin'' 42))
        (1, ''faqadmin'') = Some [42]
   \<and> count_list [42::nat] 42 = 1"
proof -
  let ?opts = "grantRequest ''faqadmin'' 42"
  let ?ws = "[calm 10, calm 20]"
  have h2: "length ?opts = 2" by (simp add: grantRequest_def)
  have h3: "ToLower faqEnv (optString (?opts ! 0)) = ''faqadmin''"
    by (simp add: grantRequest_def faqEnv_def)
  have h4: "optSnowflake (?opts ! 1) = Some 42" by (simp add: grantRequest_def)
  have h5: "''faqadmin'' \<in> set (commandGroups faqEnv)" by (simp add: faqEnv_def)
  have h6: "?ws \<noteq> [] \<and> (\<forall>w \<in> set ?ws. \<not> readFails w \<and> \<not> writeFails w)"
    by (simp add: calm_def)
  have ev: "access (snd (SubCommandAccessGrant faqEnv (calm 10) emptyStore 1 ?opts))
              (1, ''faqadmin'') = Some [42]"
    by (simp add: SubCommandAccessGrant_def GetObject_def grantWrite_def Set_def
        ContainsString_def ContainsRole_def grantRequest_def faqEnv_def calm_def emptyStore_def
        Let_def)
  from grant_idempotent [OF reachable.init h2 h3 h4 h5, of 1 "[]" "calm 10" ?ws] h6
  have "grantAll faqEnv ?ws emptyStore 1 ?opts =
          snd (SubCommandAccessGrant faqEnv (calm 10) emptyStore 1 ?opts)"
    by simp
  with ev reachable.init show ?thesis by simp
qed

section \<open>Option keys and labels at creation\<close>

lemma digit_inj: "a < 10 \<Longrightarrow> b < 10 \<Longrightarrow> digit a = digit b \<Longrightarrow> a = b"
proof -
  have below: "[0 ..< 10] = [0, 1, 2, 3, 4, 5, 6, 7, 8, 9 :: nat]"
    by (simp add: upt_rec)
  have "\<forall>x \<in> set [0 ..< 10]. \<forall>y \<in> set [0 ..< 10]. digit x = digit y \<longrightarrow> x = y"
    unfolding below by (simp add: digit_def)
  moreover assume "a < 10" "b < 10" "digit a = digit b"
  ultimately show "a = b" by simp
qed

lemma Itoa_nonempty: "Itoa n \<noteq> []"
  by (subst Itoa.simps) simp

lemma Itoa_inj: "Itoa m = Itoa n \<Longrightarrow> m = n"
proof (induction m arbitrary: n rule: Itoa.induct)
  case (1 m)
  show ?case
  proof (cases "m < 10")
    case True
    show ?thesis
    proof (cases "n < 10")
      case nl: True
      with True 1(2) show ?thesis
        by (simp add: Itoa.simps [of m] Itoa.simps [of n] digit_inj)
    next
      case False
      with True 1(2) Itoa_nonempty [of "n div 10"] show ?thesis
        by (simp add: Itoa.simps [of m] Itoa.simps [of n])
    qed
  next
    case False
    show ?thesis
    proof (cases "n < 10")
      case True
      with False 1(2) Itoa_nonempty [of "m div 10"] show ?thesis
        by (simp add: Itoa.simps [of m] Itoa.simps [of n])
    next
      case nl: False
      with False 1(2) have eq: "Itoa (m div 10) = Itoa (n div 10)"
        "digit (m mod 10) = digit (n mod 10)"
        by (simp_all add: Itoa.simps [of m] Itoa.simps [of n])
      from 1(1) [OF False eq(1)] have "m div 10 = n div 10" .
      moreover from eq(2) have "m mod 10 = n mod 10" by (simp add: digit_inj)
      ultimately show ?thesis by (metis div_mult_mod_eq)
    qed
  qed
qed


lemma optionsLoop_stop: "i > 24 \<Longrightarrow> optionsLoop i opts v = v"
  by (cases opts) simp_all

lemma optionsLoop_step:
  "\<not> i > 24 \<Longrightarrow> optionsLoop i (opt # rest) v =
     optionsLoop (Suc i) rest
       (v\<lparr>Options := (Options v)(''vote/'' @ Itoa i \<mapsto> take 100 opt),
           Order := Order v @ [''vote/'' @ Itoa i]\<rparr>)"
  by (simp add: Let_def)

lemma bound_step: "min (i + length (opt # rest)) 25 = min (Suc i + length rest) (25::nat)"
  by simp

lemma range_step:
  assumes "\<not> i > 24"
  shows "[i ..< min (i + length (opt # rest)) 25] = i # [Suc i ..< min (Suc i + length rest) 25]"
proof -
  from assms have "i < min (Suc i + length rest) 25" by simp
  then have "[i ..< min (Suc i + length rest) 25] = i # [Suc i ..< min (Suc i + length rest) 25]"
    by (rule upt_conv_Cons)
  then show ?thesis by (simp only: bound_step)
qed

lemma optionsLoop_Order:
  "Order (optionsLoop i opts v) =
     Order v @ map (\<lambda>j. ''vote/'' @ Itoa j) [i ..< min (i + length opts) 25]"
proof (induction opts arbitrary: i v)
  case Nil
  then show ?case by simp
next
  case (Cons opt rest)
  show ?case
  proof (cases "i > 24")
    case True
    then show ?thesis by (simp add: optionsLoop_stop)
  next
    case False
    show ?thesis
      unfolding optionsLoop_step [OF False] Cons.IH range_step [OF False] by simp
  qed
qed

lemma optionsLoop_outside:
  "k \<notin> (\<lambda>j. ''vote/'' @ Itoa j) ` {i ..< min (i + length opts) 25}
     \<Longrightarrow> Options (optionsLoop i opts v) k = Options v k"
proof (induction opts arbitrary: i v)
  case Nil
  then show ?case by simp
next
  case (Cons opt rest)
  show ?case
  proof (cases "i > 24")
    case True
    then show ?thesis by (simp add: optionsLoop_stop)
  next
    case False
    from False have mem: "i \<in> {i ..< min (i + length (opt # rest)) 25}" by simp
    have sub: "{Suc i ..< min (Suc i + length rest) 25} \<subseteq> {i ..< min (i + length (opt # rest)) 25}"
      by auto
    with Cons.prems have
      "k \<notin> (\<lambda>j. ''vote/'' @ Itoa j) ` {Suc i ..< min (Suc i + length rest) 25}"
      by blast
    moreover from mem Cons.prems have "k \<noteq> ''vote/'' @ Itoa i" by blast
    ultimately show ?thesis
      unfolding optionsLoop_step [OF False] by (simp add: Cons.IH)
  qed
qed

lemma optionsLoop_inside:
  "i \<le> j \<Longrightarrow> j < min (i + length opts) 25
     \<Longrightarrow> Options (optionsLoop i opts v) (''vote/'' @ Itoa j) = Some (take 100 (opts ! (j - i)))"
proof (induction opts arbitrary: i v)
  case Nil
  then show ?case by simp
next
  case (Cons opt rest)
  from Cons.prems have small: "\<not> i > 24" by simp
  show ?case
  proof (cases "j = i")
    case True
    have "''vote/'' @ Itoa i \<notin> (\<lambda>j. ''vote/'' @ Itoa j) ` {Suc i ..< min (Suc i + length rest) 25}"
      by (auto dest: Itoa_inj)
    then show ?thesis
      unfolding optionsLoop_step [OF small] True by (simp add: optionsLoop_outside)
  next
    case False
    with Cons.prems have "Suc i \<le> j" "j < min (Suc i + length rest) 25" by simp_all
    then have "Options (optionsLoop (Suc i) rest
                 (v\<lparr>Options := (Options v)(''vote/'' @ Itoa i \<mapsto> take 100 opt),
                     Order := Order v @ [''vote/'' @ Itoa i]\<rparr>)) (''vote/'' @ Itoa j)
               = Some (take 100 (rest ! (j - Suc i)))"
      by (rule Cons.IH)
    moreover from \<open>Suc i \<le> j\<close> have "(opt # rest) ! (j - i) = rest ! (j - Suc i)"
      by (simp add: nth_Cons')
    ultimately show ?thesis
      unfolding optionsLoop_step [OF small] by simp
  qed
qed

lemma optionsLoop_dom:
  "dom (Options (optionsLoop i opts v)) =
     dom (Options v) \<union> (\<lambda>j. ''vote/'' @ Itoa j) ` {i ..< min (i + length opts) 25}"
proof (intro set_eqI iffI)
  fix k assume "k \<in> dom (Options (optionsLoop i opts v))"
  then show "k \<in> dom (Options v) \<union> (\<lambda>j. ''vote/'' @ Itoa j) ` {i ..< min (i + length opts) 25}"
    using optionsLoop_outside [of k i opts v] by (cases "k \<in> (\<lambda>j. ''vote/'' @ Itoa j) ` {i ..< min (i + length opts) 25}") auto
next
  fix k assume a: "k \<in> dom (Options v) \<union> (\<lambda>j. ''vote/'' @ Itoa j) ` {i ..< min (i + length opts) 25}"
  show "k \<in> dom (Options (optionsLoop i opts v))"
  proof (cases "k \<in> (\<lambda>j. ''vote/'' @ Itoa j) ` {i ..< min (i + length opts) 25}")
    case True
    then obtain j where "k = ''vote/'' @ Itoa j" "i \<le> j" "j < min (i + length opts) 25" by auto
    then show ?thesis using optionsLoop_inside [of i j opts v] by auto
  next
    case False
    with a optionsLoop_outside [of k i opts v] show ?thesis by auto
  qed
qed

lemma optionsLoop_other_fields:
  "Options (optionsLoop i opts (v\<lparr>Question := q, EndTime := t\<rparr>)) = Options (optionsLoop i opts v)
   \<and> Order (optionsLoop i opts (v\<lparr>Question := q, EndTime := t\<rparr>)) = Order (optionsLoop i opts v)"
proof -
  have "Options (optionsLoop i opts (v\<lparr>Question := q, EndTime := t\<rparr>)) k = Options (optionsLoop i opts v) k" for k
  proof (cases "k \<in> (\<lambda>j. ''vote/'' @ Itoa j) ` {i ..< min (i + length opts) 25}")
    case True
    then obtain j where "k = ''vote/'' @ Itoa j" "i \<le> j" "j < min (i + length opts) 25" by auto
    then show ?thesis
      using optionsLoop_inside [of i j opts v]
        optionsLoop_inside [of i j opts "v\<lparr>Question := q, EndTime := t\<rparr>"]
      by simp
  next
    case False
    then show ?thesis by (simp add: optionsLoop_outside)
  qed
  then show ?thesis by (auto simp: optionsLoop_Order)
qed

text \<open>The form holds each key once; the loop over it reaches the options at most once.\<close>

lemma modalLoop_no_options:
  "modalLoop env data v = Inr v' \<Longrightarrow> ''options'' \<notin> fst ` set data
     \<Longrightarrow> Options v' = Options v \<and> Order v' = Order v"
proof (induction env data v rule: modalLoop.induct)
  case (1 env vote)
  then show ?case by simp
next
  case (2 env key val rest vote)
  then show ?case
    by (auto split: if_splits option.splits)
qed

lemma modalLoop_options:
  "modalLoop env data v = Inr v' \<Longrightarrow> distinct (map fst data) \<Longrightarrow> (''options'', text) \<in> set data
     \<Longrightarrow> Options v' = Options (optionsLoop 0 (Split text) v)
         \<and> Order v' = Order (optionsLoop 0 (Split text) v)"
proof (induction env data v rule: modalLoop.induct)
  case (1 env vote)
  then show ?case by simp
next
  case (2 env key val rest vote)
  show ?case
  proof (cases "key = ''options''")
    case True
    with "2.prems" have val: "val = text" and rest: "''options'' \<notin> fst ` set rest"
      by (auto simp: rev_image_eqI)
    from True "2.prems"(1) have "modalLoop env rest (optionsLoop 0 (Split val) vote) = Inr v'"
      by (simp add: HasPrefix_def)
    from modalLoop_no_options [OF this rest] val show ?thesis by simp
  next
    case False
    with "2.prems" have mem: "(''options'', text) \<in> set rest" and d: "distinct (map fst rest)"
      by auto
    from False "2.prems"(1) obtain days where
      pre: "HasPrefix key ''desc/''" "Question vote = []"
        "ParseFloat env (TrimPrefix key ''desc/'') = Some days"
      and run: "modalLoop env rest (vote\<lparr>Question := val,
                  EndTime := StartTime vote + int64 (days * 24 * 3600)\<rparr>) = Inr v'"
      by (auto split: if_splits option.splits)
    from "2.IH"(1) [OF pre(1) _ pre(3) run d mem] pre(2)
    show ?thesis by (simp add: optionsLoop_other_fields)
  qed
qed

lemma handler_options:
  assumes "Callback (VoteModalHandler env w keys guildID data) = Some vote"
    and "distinct (map fst data)" and "(''options'', text) \<in> set data"
  shows "Order vote = map (\<lambda>i. ''vote/'' @ Itoa i) [0 ..< min (length (Split text)) 25]"
    and "dom (Options vote) = (\<lambda>i. ''vote/'' @ Itoa i) ` {0 ..< min (length (Split text)) 25}"
    and "i < min (length (Split text)) 25
           \<Longrightarrow> Options vote (''vote/'' @ Itoa i) = Some (take 100 (Split text ! i))"
proof -
  let ?v0 = "\<lparr>StartTime = now w, EndTime = 0, GuildID = guildID,
                  MessageID = NullMessageID, ChannelID = NullChannelID, Question = [],
                  Options = Map.empty, Order = [], Votes = Map.empty\<rparr>"
  from assms(1) have "modalLoop env data ?v0 = Inr vote"
    by (auto simp: VoteModalHandler_def Let_def split: sum.splits)
  from modalLoop_options [OF this assms(2,3)]
  have eq: "Options vote = Options (optionsLoop 0 (Split text) ?v0)"
    "Order vote = Order (optionsLoop 0 (Split text) ?v0)" by simp_all
  show "Order vote = map (\<lambda>i. ''vote/'' @ Itoa i) [0 ..< min (length (Split text)) 25]"
    by (simp add: eq optionsLoop_Order)
  show "dom (Options vote) = (\<lambda>i. ''vote/'' @ Itoa i) ` {0 ..< min (length (Split text)) 25}"
    by (simp add: eq optionsLoop_dom)
  show "i < min (length (Split text)) 25
           \<Longrightarrow> Options vote (''vote/'' @ Itoa i) = Some (take 100 (Split text ! i))"
    using optionsLoop_inside [of 0 i "Split text" ?v0] by (simp add: eq)
qed

lemma modal_desc_first:
  assumes "ParseFloat env s = Some d"
  shows "modalLoop env [(''desc/'' @ s, q), (''options'', text)] v =
           (if Question v \<noteq> [] then Inl configProblem
            else Inr (optionsLoop 0 (Split text)
                   (v\<lparr>Question := q, EndTime := StartTime v + int64 (d * 24 * 3600)\<rparr>)))"
  using assms by (simp add: HasPrefix_def TrimPrefix_def)


lemma lunchForm_shape:
  "distinct (map fst lunchForm) \<and> (''options'', ''Pizza'' @ [newline] @ ''Tacos'') \<in> set lunchForm"
  by (simp add: lunchForm_def)

lemma lunch_callback:
  "Callback (VoteModalHandler exampleEnv (calm 1000) [''vote/0'', ''vote/1''] 1 lunchForm)
     = Some lunchDraft"
  unfolding lunch_created by simp

text \<open>
  C5, as the specification states it, fails: the keys are not \<open>"opt/0"\<close>, \<open>"opt/1"\<close>, ...
  The form of the running example yields the keys \<open>"vote/0"\<close> and \<open>"vote/1"\<close>, and
  \<open>"opt/0"\<close> is no key of the created poll.
\<close>

theorem option_keys_counterexample:
  "Callback (VoteModalHandler exampleEnv (calm 1000) [''vote/0'', ''vote/1''] 1 lunchForm)
     = Some lunchDraft
   \<and> Order lunchDraft = [''vote/0'', ''vote/1'']
   \<and> Order lunchDraft \<noteq> [''opt/0'', ''opt/1'']
   \<and> Options lunchDraft ''opt/0'' = None"
  using lunch_callback by (simp add: lunchDraft_def)

text \<open>
  C5, amended. At poll creation the option-keys are assigned by ordinal position as
  \<open>"vote/0"\<close>, \<open>"vote/1"\<close>, ...: for a form that holds each key once and whose options
  field holds \<open>text\<close>, the created poll's \<open>Order\<close> is the list of the keys \<open>"vote/i"\<close> for
  \<open>i\<close> from 0 up to the number of lines (at most 25), these keys are pairwise different,
  and they are exactly the keys of \<open>Options\<close>.
\<close>

theorem option_keys_by_position:
  assumes "Callback (VoteModalHandler env w keys guildID data) = Some vote"
    and "distinct (map fst data)" and "(''options'', text) \<in> set data"
  shows "Order vote = map (\<lambda>i. ''vote/'' @ Itoa i) [0 ..< min (length (Split text)) 25]
         \<and> distinct (Order vote) \<and> dom (Options vote) = set (Order vote)"
proof -
  have inj: "inj_on (\<lambda>i. ''vote/'' @ Itoa i) A" for A
    by (auto simp: inj_on_def dest: Itoa_inj)
  have "distinct (map (\<lambda>i. ''vote/'' @ Itoa i) [0 ..< min (length (Split text)) 25])"
    using inj [of "{0 ..< min (length (Split text)) 25}"] by (simp add: distinct_map)
  then show ?thesis
    using handler_options(1,2) [OF assms] by simp
qed

theorem option_keys_by_position_witness:
  "distinct (map fst lunchForm)
   \<and> (''options'', ''Pizza'' @ [newline] @ ''Tacos'') \<in> set lunchForm
   \<and> Order lunchDraft =
       map (\<lambda>i. ''vote/'' @ Itoa i) [0 ..< min (length (Split (''Pizza'' @ [newline] @ ''Tacos''))) 25]
   \<and> Order lunchDraft = [''vote/0'', ''vote/1'']"
proof -
  from option_keys_by_position [OF lunch_callback lunchForm_shape [THEN conjunct1]
      lunchForm_shape [THEN conjunct2]]
  have "Order lunchDraft =
       map (\<lambda>i. ''vote/'' @ Itoa i) [0 ..< min (length (Split (''Pizza'' @ [newline] @ ''Tacos''))) 25]"
    by blast
  moreover have "Order lunchDraft = [''vote/0'', ''vote/1'']" by (simp add: lunchDraft_def)
  ultimately show ?thesis using lunchForm_shape by blast
qed

text \<open>
  C7. For a form that holds each key once and whose options field holds \<open>text\<close>, the created
  poll has one option per line of \<open>text\<close> up to 25 options: line \<open>i\<close> (for \<open>i\<close> up to 24) is
  stored under \<open>"vote/i"\<close> as its first 100 bytes, no key of index 25 or more is stored,
  and no stored label is longer than 100 bytes (hence 100 characters). No line makes
  the handler reject the form: with a description key that parses, the form is accepted
  whatever its options field holds.
\<close>

theorem option_lines_capped:
  assumes "Callback (VoteModalHandler env w keys guildID data) = Some vote"
    and "distinct (map fst data)" and "(''options'', text) \<in> set data"
  shows "card (dom (Options vote)) = min (length (Split text)) 25
         \<and> card (dom (Options vote)) \<le> 25
         \<and> length (Order vote) = min (length (Split text)) 25
         \<and> (\<forall>i < min (length (Split text)) 25.
               Options vote (''vote/'' @ Itoa i) = Some (take 100 (Split text ! i)))
         \<and> (\<forall>i \<ge> 25. Options vote (''vote/'' @ Itoa i) = None)
         \<and> (\<forall>key label. Options vote key = Some label \<longrightarrow> length label \<le> 100)
         \<and> (ParseFloat env s = Some d \<longrightarrow>
              Callback (VoteModalHandler env w keys guildID
                          [(''desc/'' @ s, q), (''options'', text')]) \<noteq> None)"
proof -
  let ?n = "min (length (Split text)) 25"
  let ?key = "\<lambda>i. ''vote/'' @ Itoa i"
  have inj: "inj_on ?key A" for A
    by (auto simp: inj_on_def dest: Itoa_inj)
  note dom = handler_options(2) [OF assms]
  have card: "card (dom (Options vote)) = ?n"
    unfolding dom using inj [of "{0 ..< ?n}"] by (simp add: card_image)
  have len: "length (Order vote) = ?n"
    using handler_options(1) [OF assms] by simp
  have inside: "\<forall>i < ?n. Options vote (?key i) = Some (take 100 (Split text ! i))"
    using handler_options(3) [OF assms] by blast
  have beyond: "\<forall>i \<ge> 25. Options vote (?key i) = None"
  proof (intro allI impI)
    fix i :: nat assume "25 \<le> i"
    then have "?key i \<notin> ?key ` {0 ..< ?n}" by (auto dest: Itoa_inj)
    with dom show "Options vote (?key i) = None" by blast
  qed
  have short: "\<forall>key label. Options vote key = Some label \<longrightarrow> length label \<le> 100"
  proof (intro allI impI)
    fix key label assume a: "Options vote key = Some label"
    then have "key \<in> ?key ` {0 ..< ?n}" using dom by blast
    then obtain i where "key = ?key i" "i < ?n" by auto
    with inside a have "label = take 100 (Split text ! i)" by simp
    then show "length label \<le> 100" by simp
  qed
  have kept: "ParseFloat env s = Some d \<longrightarrow>
      Callback (VoteModalHandler env w keys guildID
                  [(''desc/'' @ s, q), (''options'', text')]) \<noteq> None"
  proof
    assume p: "ParseFloat env s = Some d"
    show "Callback (VoteModalHandler env w keys guildID
                  [(''desc/'' @ s, q), (''options'', text')]) \<noteq> None"
      unfolding VoteModalHandler_def Let_def modal_desc_first [OF p] by simp
  qed
  from card len inside beyond short kept show ?thesis by simp
qed

theorem option_lines_capped_witness:
  "distinct (map fst lunchForm)
   \<and> (''options'', ''Pizza'' @ [newline] @ ''Tacos'') \<in> set lunchForm
   \<and> card (dom (Options lunchDraft)) = 2
   \<and> Options lunchDraft ''vote/1'' = Some ''Tacos''
   \<and> Options lunchDraft (''vote/'' @ Itoa 25) = None
   \<and> ParseFloat exampleEnv ''1.000000'' = Some 1
   \<and> length (replicate 150 CHR ''a'') > 100
   \<and> Callback (VoteModalHandler exampleEnv (calm 1000) [''vote/0'', ''vote/1''] 1
         [(''desc/1.000000'', ''Lunch?''), (''options'', replicate 150 CHR ''a'')]) \<noteq> None"
proof -
  note t = option_lines_capped [OF lunch_callback lunchForm_shape [THEN conjunct1]
      lunchForm_shape [THEN conjunct2], of "''1.000000''" 1 "''Lunch?''"
      "replicate 150 CHR ''a''"]
  have n: "min (length (Split (''Pizza'' @ [newline] @ ''Tacos''))) 25 = 2"
    unfolding Split_lunch by simp
  have p: "ParseFloat exampleEnv ''1.000000'' = Some 1" by (simp add: exampleEnv_def)
  from t have "card (dom (Options lunchDraft)) = 2" unfolding n by blast
  moreover from t have "Options lunchDraft (''vote/'' @ Itoa 25) = None" by blast
  moreover have "Options lunchDraft ''vote/1'' = Some ''Tacos''" by (simp add: lunchDraft_def)
  moreover from t p have "Callback (VoteModalHandler exampleEnv (calm 1000) [''vote/0'', ''vote/1''] 1
         [(''desc/'' @ ''1.000000'', ''Lunch?''), (''options'', replicate 150 CHR ''a'')]) \<noteq> None"
    by blast
  moreover have "length (replicate 150 CHR ''a'') > 100" by simp
  ultimately show ?thesis using lunchForm_shape p by simp
qed

section \<open>The duration of a poll\<close>




section \<open>The order of the option selector\<close>

lemma selectorLoop_values:
  "set ks \<subseteq> dom (Options vote)
     \<Longrightarrow> map Value (selectorLoop vote ks acc) = map Value acc @ ks"
  by (induction ks arbitrary: acc) (auto split: option.splits)

lemma selector_values:
  "rangeOrder (Options vote) ks \<Longrightarrow> map Value (makeVoteSelector ks vote) = ks"
  by (simp add: rangeOrder_def makeVoteSelector_def selectorLoop_values)

text \<open>
  C8. The selector lists the options in the order in which \<open>range\<close> visits the \<open>Options\<close>
  map, not in the order of the \<open>Order\<close> field. For the poll of the running example both
  orders of its two keys are possible visits; visiting \<open>"vote/1"\<close> first yields a selector
  that lists Tacos before Pizza, against \<open>Order\<close>, and that differs from the selector of the
  other visit: two renderings of one record need not be the same.
\<close>

theorem selector_ignores_order:
  "rangeOrder (Options lunch) [''vote/0'', ''vote/1'']
   \<and> rangeOrder (Options lunch) [''vote/1'', ''vote/0'']
   \<and> Order lunch = [''vote/0'', ''vote/1'']
   \<and> makeVoteSelector [''vote/1'', ''vote/0''] lunch =
        [\<lparr>Label = ''Tacos'', Value = ''vote/1''\<rparr>, \<lparr>Label = ''Pizza'', Value = ''vote/0''\<rparr>]
   \<and> map Value (makeVoteSelector [''vote/1'', ''vote/0''] lunch) \<noteq> Order lunch
   \<and> makeVoteSelector [''vote/1'', ''vote/0''] lunch
        \<noteq> makeVoteSelector [''vote/0'', ''vote/1''] lunch"
  by (auto simp: rangeOrder_def makeVoteSelector_def lunch_def lunchDraft_def)

section \<open>Read and write are two store calls\<close>
















end
